theory Spec2Isabelle
  imports Main "HOL-Library.Multiset"
begin

section \<open>Messages (\<^verbatim>\<open>fb_chat.Message\<close>)\<close>

text \<open>
  A \<^verbatim>\<open>datetime.datetime\<close> (naive, as the parser produces it) is modelled by the number
  of microseconds since 0001-01-01 00:00, so that comparison of datetimes is comparison of
  integers. Python's unbounded \<^verbatim>\<open>int\<close> is \<^typ>\<open>int\<close>, a \<^verbatim>\<open>str\<close> is a \<^typ>\<open>string\<close>.
\<close>

type_synonym datetime = int

record message =
  thread_name :: string
  author :: string
  date_time :: datetime
  msg_text :: string
  num :: int

datatype error = KeyError | IndexError | ValueError | TypeError | OverflowError

text \<open>
  A date argument is either a \<^verbatim>\<open>datetime.datetime\<close> or a tuple of integers
  \<^verbatim>\<open>(YYYY, MM, DD[, HH, MM])\<close>. The constructor \<^verbatim>\<open>datetime.datetime(*date)\<close> belongs to
  Python's library, not to this program; it is the parameter \<open>mk\<close>, which may raise.
\<close>

datatype date_arg = Native datetime | CalTuple "int list"

definition date_parse :: "(int list \<Rightarrow> error + datetime) \<Rightarrow> date_arg \<Rightarrow> error + datetime" where
  "date_parse mk date = (case date of Native d \<Rightarrow> Inr d | CalTuple xs \<Rightarrow> mk xs)"

definition sent_by :: "message \<Rightarrow> string \<Rightarrow> bool" where
  "sent_by m name = (author m = name)"

definition sent_before :: "(int list \<Rightarrow> error + datetime) \<Rightarrow> message \<Rightarrow> date_arg \<Rightarrow> error + bool" where
  "sent_before mk m date =
     (case date_parse mk date of Inl e \<Rightarrow> Inl e | Inr d \<Rightarrow> Inr (date_time m < d))"

definition sent_after :: "(int list \<Rightarrow> error + datetime) \<Rightarrow> message \<Rightarrow> date_arg \<Rightarrow> error + bool" where
  "sent_after mk m date =
     (case date_parse mk date of Inl e \<Rightarrow> Inl e | Inr d \<Rightarrow> Inr (date_time m > d))"

text \<open>
  \<^verbatim>\<open>__lt__\<close> and \<^verbatim>\<open>__gt__\<close> end in \<^verbatim>\<open>self.sent_before(message.date_time)\<close> and
  \<^verbatim>\<open>self.sent_after(message.date_time)\<close>. The argument is the other message's datetime, so
  \<^verbatim>\<open>_date_parse\<close> returns it unchanged and the call cannot raise: the comparison is written
  out on the two datetimes (lemmas \<open>sent_before_Native\<close>, \<open>sent_after_Native\<close> below).
\<close>

definition Message_lt :: "message \<Rightarrow> message \<Rightarrow> bool" where
  "Message_lt self other =
     (if date_time self = date_time other then
        (if \<bar>num self - num other\<bar> > 9000 then False
         else num self < num other)
      else date_time self < date_time other)"

definition Message_gt :: "message \<Rightarrow> message \<Rightarrow> bool" where
  "Message_gt self other =
     (if date_time self = date_time other then
        (if \<bar>num self - num other\<bar> > 9000 then True
         else num self > num other)
      else date_time self > date_time other)"

definition Message_eq :: "message \<Rightarrow> message \<Rightarrow> bool" where
  "Message_eq self other =
     (let equal = (num self = num other) \<and> (author self = author other)
      in equal \<and> (date_time self = date_time other) \<and> (msg_text self = msg_text other))"

text \<open>\<^verbatim>\<open>a != b\<close>: the class defines no \<^verbatim>\<open>__ne__\<close>, so Python 3 negates \<^verbatim>\<open>__eq__\<close>.\<close>

definition Message_ne :: "message \<Rightarrow> message \<Rightarrow> bool" where
  "Message_ne self other = (\<not> Message_eq self other)"

definition mk_msg :: "datetime \<Rightarrow> int \<Rightarrow> string \<Rightarrow> message" where
  "mk_msg d n t = \<lparr>thread_name = ''A, B'', author = ''A'', date_time = d, msg_text = t, num = n\<rparr>"

text \<open>
  \<^verbatim>\<open>str.replace(old, new)\<close> replaces the occurrences of \<open>old\<close> found from left to right,
  without overlap. \<open>repl_ne\<close> is the scan for a non-empty \<open>old = o # os\<close>; for the empty
  \<open>old\<close> Python puts \<open>new\<close> before every character and at the end.
\<close>

primrec startswith :: "string \<Rightarrow> string \<Rightarrow> bool" where
  "startswith s [] = True"
| "startswith s (p # ps) = (case s of [] \<Rightarrow> False | c # cs \<Rightarrow> c = p \<and> startswith cs ps)"

fun repl_ne :: "char \<Rightarrow> string \<Rightarrow> string \<Rightarrow> string \<Rightarrow> string" where
  "repl_ne o' os new [] = []"
| "repl_ne o' os new (c # cs) =
     (if startswith (c # cs) (o' # os) then new @ repl_ne o' os new (drop (length os) cs)
      else c # repl_ne o' os new cs)"

definition replace_py :: "string \<Rightarrow> string \<Rightarrow> string \<Rightarrow> string" where
  "replace_py s old new =
     (case old of [] \<Rightarrow> new @ concat (map (\<lambda>c. c # new) s)
      | o' # os \<Rightarrow> repl_ne o' os new s)"

text \<open>\<^verbatim>\<open>str.count(old)\<close> for a non-empty \<open>old\<close>: the occurrences that \<open>replace_py\<close> replaces.\<close>

fun count_ne :: "char \<Rightarrow> string \<Rightarrow> string \<Rightarrow> nat" where
  "count_ne o' os [] = 0"
| "count_ne o' os (c # cs) =
     (if startswith (c # cs) (o' # os) then Suc (count_ne o' os (drop (length os) cs))
      else count_ne o' os cs)"

definition count_py :: "string \<Rightarrow> string \<Rightarrow> nat" where
  "count_py s old = (case old of [] \<Rightarrow> Suc (length s) | o' # os \<Rightarrow> count_ne o' os s)"

definition dquote :: char where
  "dquote = CHR 0x22"

definition newline_token :: string where
  "newline_token = ''<|NEWLINE|>''"

definition Message_len :: "message \<Rightarrow> nat" where
  "Message_len self =
     (let text1 = replace_py (msg_text self) newline_token [];
          text2 = replace_py text1 [dquote, dquote] [dquote]
      in length text2)"

text \<open>
  \<^verbatim>\<open>start + datetime.timedelta(1)\<close>: one day is 86400 seconds of \<open>10^6\<close> microseconds; the
  sum raises \<^verbatim>\<open>OverflowError\<close> outside \<^verbatim>\<open>datetime.min .. datetime.max\<close>
  (0001-01-01 00:00:00 to 9999-12-31 23:59:59.999999, that is 3652059 days).
\<close>

definition one_day :: int where
  "one_day = 86400 * 1000000"

definition datetime_max :: datetime where
  "datetime_max = 3652059 * one_day - 1"

definition datetime_add :: "datetime \<Rightarrow> int \<Rightarrow> error + datetime" where
  "datetime_add d delta =
     (if d + delta < 0 \<or> datetime_max < d + delta then Inl OverflowError else Inr (d + delta))"

definition sent_between ::
  "(int list \<Rightarrow> error + datetime) \<Rightarrow> message \<Rightarrow> date_arg \<Rightarrow> date_arg option \<Rightarrow> error + bool" where
  "sent_between mk m start end' =
     (case date_parse mk start of Inl e \<Rightarrow> Inl e
      | Inr s \<Rightarrow>
          (case (case end' of Some en \<Rightarrow> date_parse mk en | None \<Rightarrow> datetime_add s one_day) of
             Inl e \<Rightarrow> Inl e
           | Inr en \<Rightarrow> Inr (s \<le> date_time m \<and> date_time m \<le> en)))"

text \<open>
  \<^verbatim>\<open>needle in text\<close> is true when the needle occurs at some position of the text.
  \<^verbatim>\<open>str.lower()\<close> belongs to Python's library and follows the Unicode case mapping; it
  is the parameter \<open>lw\<close> of \<open>contains\<close>.
\<close>

fun str_in :: "string \<Rightarrow> string \<Rightarrow> bool" where
  "str_in needle [] = (needle = [])"
| "str_in needle (c # cs) = (startswith (c # cs) needle \<or> str_in needle cs)"

definition contains :: "(string \<Rightarrow> string) \<Rightarrow> message \<Rightarrow> string \<Rightarrow> bool \<Rightarrow> bool" where
  "contains lw m search_string ignore_case =
     (if ignore_case then str_in (lw search_string) (lw (msg_text m))
      else str_in search_string (msg_text m))"

text \<open>
  On a text of ASCII characters \<^verbatim>\<open>str.lower()\<close> changes the letters \<open>A\<close> to \<open>Z\<close> into
  \<open>a\<close> to \<open>z\<close> and nothing else. \<open>ascii_lower\<close> is that function on ASCII texts; it
  stands for the parameter \<open>lw\<close> only where the texts are ASCII.
\<close>

definition ascii_lower_char :: "char \<Rightarrow> char" where
  "ascii_lower_char c =
     (if (65::nat) \<le> of_char c \<and> of_char c \<le> (90::nat) then char_of (of_char c + (32::nat)) else c)"

definition ascii_lower :: "string \<Rightarrow> string" where
  "ascii_lower s = map ascii_lower_char s"

section \<open>Sorting (\<^verbatim>\<open>sorted\<close>)\<close>

text \<open>
  \<^verbatim>\<open>sorted\<close> is Python's stable sort, which compares elements with \<^verbatim>\<open><\<close> only. It is
  modelled by the stable insertion sort: each element in turn moves left past the elements
  of the sorted prefix that it is less than. The prefix is kept reversed (last element
  first), so that the scan starts at its right end. Where \<^verbatim>\<open><\<close> is a strict weak order on
  the elements, every stable sort returns this list; where it is not, Python's own sort
  may return another permutation, and nothing below relies on the order found there
  except for a list that no adjacent comparison disturbs.
  \<^verbatim>\<open>sorted(xs, key=f, reverse=True)\<close> compares the keys, and keeps the elements with equal
  keys in their original order: it sorts the reversed list and reverses the result.
\<close>

fun insert_sorted :: "('a \<Rightarrow> 'a \<Rightarrow> bool) \<Rightarrow> 'a \<Rightarrow> 'a list \<Rightarrow> 'a list" where
  "insert_sorted lt x [] = [x]"
| "insert_sorted lt x (y # ys) =
     (if lt x y then y # insert_sorted lt x ys else x # y # ys)"

definition py_sorted :: "('a \<Rightarrow> 'a \<Rightarrow> bool) \<Rightarrow> 'a list \<Rightarrow> 'a list" where
  "py_sorted lt xs = rev (foldl (\<lambda>acc x. insert_sorted lt x acc) [] xs)"

definition py_sorted_key_reverse :: "('a \<Rightarrow> nat) \<Rightarrow> 'a list \<Rightarrow> 'a list" where
  "py_sorted_key_reverse key xs = rev (py_sorted (\<lambda>a b. key a < key b) (rev xs))"

section \<open>Threads (\<^verbatim>\<open>fb_chat.Thread\<close>)\<close>

text \<open>
  Messages are mutable objects: \<^verbatim>\<open>_renumber_messages\<close> assigns to \<^verbatim>\<open>message._num\<close>, and a
  list may hold the same object more than once. A thread therefore holds references, and
  the store maps each reference to the message object's current fields.
\<close>

type_synonym ref = nat

type_synonym store = "ref \<Rightarrow> message"

record thread =
  people :: "string list"
  people_str :: string
  messages :: "ref list"

fun join :: "string \<Rightarrow> string list \<Rightarrow> string" where
  "join sep [] = []"
| "join sep [x] = x"
| "join sep (x # y # ys) = x @ sep @ join sep (y # ys)"

definition lt_in :: "store \<Rightarrow> ref \<Rightarrow> ref \<Rightarrow> bool" where
  "lt_in st a b = Message_lt (st a) (st b)"

definition Thread_init :: "store \<Rightarrow> string list \<Rightarrow> ref list \<Rightarrow> thread" where
  "Thread_init st ps ms =
     \<lparr>people = ps, people_str = join '', '' ps, messages = py_sorted (lt_in st) ms\<rparr>"

definition Thread_len :: "thread \<Rightarrow> nat" where
  "Thread_len t = length (messages t)"

definition add_messages :: "store \<Rightarrow> thread \<Rightarrow> ref list \<Rightarrow> thread" where
  "add_messages st t new_messages =
     t\<lparr>messages := py_sorted (lt_in st) (messages t @ new_messages)\<rparr>"

text \<open>
  The loop of \<^verbatim>\<open>_renumber_messages\<close>: \<open>i\<close> counts from 1 and each object met is assigned
  the current \<open>i\<close>. The method changes message objects only, so it returns the new store
  together with the thread it was given.
\<close>

fun renumber_loop :: "store \<Rightarrow> int \<Rightarrow> ref list \<Rightarrow> store" where
  "renumber_loop st i [] = st"
| "renumber_loop st i (r # rs) = renumber_loop (st(r := (st r)\<lparr>num := i\<rparr>)) (i + 1) rs"

definition renumber_messages :: "store \<Rightarrow> thread \<Rightarrow> store \<times> thread" where
  "renumber_messages st t = (renumber_loop st 1 (messages t), t)"

section \<open>The chat (\<^verbatim>\<open>fb_chat.Chat\<close>)\<close>

record chat =
  threads :: "thread list"
  thread_dict :: "string \<rightharpoonup> thread"
  total_messages :: nat
  myname :: string
  all_people :: "string set"

definition all_messages :: "store \<Rightarrow> thread list \<Rightarrow> ref list" where
  "all_messages st ths = py_sorted (lt_in st) (concat (map messages ths))"

definition Chat_init :: "store \<Rightarrow> string \<Rightarrow> thread list \<Rightarrow> chat" where
  "Chat_init st me ts =
     (let ths = py_sorted_key_reverse Thread_len ts;
          d = foldl (\<lambda>d t. d(join '', '' (people t) \<mapsto> t)) Map.empty ths;
          total = length (all_messages st ths);
          ppl = foldl (\<lambda>s t. s \<union> set (people t)) {me} ths
      in \<lparr>threads = ths, thread_dict = d, total_messages = total, myname = me,
          all_people = ppl\<rparr>)"

text \<open>
  \<^verbatim>\<open>__getitem__\<close> dispatches on \<^verbatim>\<open>type(key)\<close>: exactly \<^verbatim>\<open>int\<close>, exactly \<^verbatim>\<open>str\<close>, or anything
  else (a \<^verbatim>\<open>bool\<close> is not an \<^verbatim>\<open>int\<close> for \<^verbatim>\<open>type(key) is int\<close>). A list index may be negative
  and raises \<^verbatim>\<open>IndexError\<close> out of range; a missing dictionary key raises \<^verbatim>\<open>KeyError\<close>. The
  result \<open>None\<close> is Python's \<^verbatim>\<open>None\<close>, returned when no branch is taken.
\<close>

datatype other_key = FloatKey | TupleKey "int list" | NoneKey | BoolKey bool

datatype key = IntKey int | StrKey string | OtherKey other_key

definition list_getitem :: "'a list \<Rightarrow> int \<Rightarrow> error + 'a" where
  "list_getitem xs i =
     (let n = int (length xs); j = (if i < 0 then n + i else i)
      in if 0 \<le> j \<and> j < n then Inr (xs ! nat j) else Inl IndexError)"

definition Chat_getitem :: "chat \<Rightarrow> key \<Rightarrow> error + thread option" where
  "Chat_getitem c k =
     (case k of
        IntKey i \<Rightarrow> (case list_getitem (threads c) i of Inl e \<Rightarrow> Inl e | Inr t \<Rightarrow> Inr (Some t))
      | StrKey s \<Rightarrow> (case thread_dict c s of None \<Rightarrow> Inl KeyError | Some t \<Rightarrow> Inr (Some t))
      | OtherKey v \<Rightarrow> Inr None)"

definition mk_thread :: "string \<Rightarrow> ref list \<Rightarrow> thread" where
  "mk_thread p ms = \<lparr>people = [p], people_str = p, messages = ms\<rparr>"

text \<open>
  The hypothesis under which sorting is studied below: any two of the listed messages
  with the same timestamp have sequence numbers at most 9000 apart, so that no
  comparison among them takes the wrap-around branch.
\<close>

definition comparable :: "store \<Rightarrow> ref list \<Rightarrow> bool" where
  "comparable st rs = (\<forall>a \<in> set rs. \<forall>b \<in> set rs.
      date_time (st a) = date_time (st b) \<longrightarrow> \<bar>num (st a) - num (st b)\<bar> \<le> 9000)"

text \<open>
  A store whose objects 0, 1 and 2 are three messages of one minute, numbered 10000, 0
  and 5000.
\<close>

definition gap_store :: store where
  "gap_store = (\<lambda>r. mk_msg 0 (if r = 0 then 10000 else if r = 1 then 0 else 5000) ''x'')"

section \<open>Properties of messages\<close>

lemma sent_before_Native:
  "sent_before mk a (Native (date_time b)) = Inr (date_time a < date_time b)"
  by (simp add: sent_before_def date_parse_def)

lemma sent_after_Native:
  "sent_after mk a (Native (date_time b)) = Inr (date_time a > date_time b)"
  by (simp add: sent_after_def date_parse_def)

subsection \<open>Comparison\<close>

text \<open>
  C1 (as amended). The comparison operators exclude one another: at most one of
  \<open>a < b\<close>, \<open>a == b\<close>, \<open>a > b\<close> holds. Exactly one of them holds as soon as the two
  messages differ in timestamp or in sequence number (then \<open>a != b\<close>, and exactly one of
  \<open>a < b\<close>, \<open>a > b\<close>). Less-than is transitive from \<open>a < b\<close> and \<open>b < c\<close> to \<open>a < c\<close>
  whenever \<open>a\<close> and \<open>c\<close> have different timestamps or sequence numbers at most 9000 apart.
\<close>

theorem Message_order_amended:
  "\<not> (Message_lt a b \<and> Message_eq a b) \<and> \<not> (Message_lt a b \<and> Message_gt a b)
   \<and> \<not> (Message_eq a b \<and> Message_gt a b)
   \<and> (date_time a \<noteq> date_time b \<or> num a \<noteq> num b \<longrightarrow>
        Message_ne a b \<and> (Message_lt a b \<noteq> Message_gt a b))
   \<and> (Message_lt a b \<and> Message_lt b c \<and>
        (date_time a = date_time c \<longrightarrow> \<bar>num a - num c\<bar> \<le> 9000) \<longrightarrow> Message_lt a c)"
  by (auto simp: Message_lt_def Message_gt_def Message_eq_def Message_ne_def Let_def
      split: if_splits)

text \<open>
  The amended ordering laws at three messages of one minute, numbered 1, 2 and 3.
\<close>

theorem Message_order_amended_witness:
  "num (mk_msg 0 1 ''x'') \<noteq> num (mk_msg 0 2 ''x'')
   \<and> Message_ne (mk_msg 0 1 ''x'') (mk_msg 0 2 ''x'')
   \<and> Message_lt (mk_msg 0 1 ''x'') (mk_msg 0 2 ''x'')
   \<and> \<not> Message_gt (mk_msg 0 1 ''x'') (mk_msg 0 2 ''x'')
   \<and> Message_lt (mk_msg 0 2 ''x'') (mk_msg 0 3 ''x'')
   \<and> \<bar>num (mk_msg 0 1 ''x'') - num (mk_msg 0 3 ''x'')\<bar> \<le> 9000
   \<and> Message_lt (mk_msg 0 1 ''x'') (mk_msg 0 3 ''x'')"
  using Message_order_amended [of "mk_msg 0 1 ''x''" "mk_msg 0 2 ''x''" "mk_msg 0 3 ''x''"]
  by (simp add: Message_lt_def Message_gt_def Message_eq_def Message_ne_def mk_msg_def)

text \<open>
  C1 as stated fails twice. Three messages of one minute numbered 0, 5000 and 10000:
  the first is less than the second and the second less than the third, but the first is
  not less than the third, their numbers being more than 9000 apart. Two messages with the
  same minute and number and different texts are unequal, and neither is less or greater
  than the other.
\<close>

theorem Message_order_counterexample:
  "(Message_lt (mk_msg 0 0 ''x'') (mk_msg 0 5000 ''x'') \<and>
    Message_lt (mk_msg 0 5000 ''x'') (mk_msg 0 10000 ''x'') \<and>
    \<not> Message_lt (mk_msg 0 0 ''x'') (mk_msg 0 10000 ''x''))
   \<and> (Message_ne (mk_msg 0 1 ''x'') (mk_msg 0 1 ''y'') \<and>
      \<not> Message_lt (mk_msg 0 1 ''x'') (mk_msg 0 1 ''y'') \<and>
      \<not> Message_eq (mk_msg 0 1 ''x'') (mk_msg 0 1 ''y'') \<and>
      \<not> Message_gt (mk_msg 0 1 ''x'') (mk_msg 0 1 ''y''))"
  by (simp add: Message_lt_def Message_gt_def Message_eq_def Message_ne_def mk_msg_def)

text \<open>
  C2. In the wrap-around case the claim makes \<open>a < b\<close> hold exactly when \<open>a\<close> has the
  larger number. At equal timestamps with numbers 10000 and 1 the first message has the
  larger number, and \<^verbatim>\<open>__lt__\<close> answers \<^verbatim>\<open>False\<close>.
\<close>

theorem Message_lt_wraparound_failing_input:
  "date_time (mk_msg 0 10000 ''x'') = date_time (mk_msg 0 1 ''y'')
   \<and> \<bar>num (mk_msg 0 10000 ''x'') - num (mk_msg 0 1 ''y'')\<bar> > 9000
   \<and> num (mk_msg 0 10000 ''x'') > num (mk_msg 0 1 ''y'')
   \<and> \<not> Message_lt (mk_msg 0 10000 ''x'') (mk_msg 0 1 ''y'')"
  by (simp add: Message_lt_def mk_msg_def)

subsection \<open>Length\<close>

lemma startswith_iff: "startswith s p \<longleftrightarrow> (\<exists>q. s = p @ q)"
  by (induction p arbitrary: s) (auto split: list.splits)

lemma startswith_length: "startswith s p \<Longrightarrow> length p \<le> length s"
  by (auto simp: startswith_iff)

lemma length_repl_ne:
  "length (repl_ne o' os new s) + count_ne o' os s * Suc (length os)
     = length s + count_ne o' os s * length new"
proof (induction o' os new s rule: repl_ne.induct)
  case (1 o' os new)
  show ?case by simp
next
  case (2 o' os new c cs)
  show ?case
  proof (cases "startswith (c # cs) (o' # os)")
    case True
    then have le: "length os \<le> length cs"
      using startswith_length [of "c # cs" "o' # os"] by simp
    have ih: "length (repl_ne o' os new (drop (length os) cs))
        + count_ne o' os (drop (length os) cs) * Suc (length os)
      = length (drop (length os) cs) + count_ne o' os (drop (length os) cs) * length new"
      using 2(1) [OF True] .
    have "length (repl_ne o' os new (c # cs)) + count_ne o' os (c # cs) * Suc (length os)
      = length new + (length (repl_ne o' os new (drop (length os) cs))
        + count_ne o' os (drop (length os) cs) * Suc (length os)) + Suc (length os)"
      using True by (simp del: startswith.simps)
    also have "\<dots> = length new + (length cs - length os
        + count_ne o' os (drop (length os) cs) * length new) + Suc (length os)"
      using ih by simp
    also have "\<dots> = length (c # cs) + count_ne o' os (c # cs) * length new"
      using True le by (simp del: startswith.simps)
    finally show ?thesis .
  next
    case False
    then have "length (repl_ne o' os new cs) + count_ne o' os cs * Suc (length os)
      = length cs + count_ne o' os cs * length new"
      using 2(2) by simp
    with False show ?thesis by (simp del: startswith.simps)
  qed
qed

lemma length_replace_py:
  "old \<noteq> [] \<Longrightarrow> int (length (replace_py s old new))
     = int (length s) - int (count_py s old) * int (length old)
       + int (count_py s old) * int (length new)"
proof -
  assume "old \<noteq> []"
  then obtain o' os where old: "old = o' # os" by (cases old) auto
  have "int (length (repl_ne o' os new s) + count_ne o' os s * Suc (length os))
     = int (length s + count_ne o' os s * length new)"
    using length_repl_ne [of o' os new s] by simp
  then show ?thesis
    by (simp add: old replace_py_def count_py_def algebra_simps)
qed

text \<open>
  C3 (as amended). The length of a message is the character count of its text after each
  token \<^verbatim>\<open><|NEWLINE|>\<close> has been removed, all eleven characters of it, and each doubled
  quote of the remaining text has been turned into one quote. The message whose stored
  text is \<^verbatim>\<open>He said ""hi""<|NEWLINE|>bye\<close> has length 15.
\<close>

theorem Message_len_strips:
  "int (Message_len m) = int (length (msg_text m))
       - 11 * int (count_py (msg_text m) newline_token)
       - int (count_py (replace_py (msg_text m) newline_token []) [dquote, dquote])
   \<and> Message_len (m\<lparr>msg_text := ''He said \"\"hi\"\"<|NEWLINE|>bye''\<rparr>) = 15"
proof
  have a: "int (length (replace_py (msg_text m) newline_token []))
      = int (length (msg_text m)) - 11 * int (count_py (msg_text m) newline_token)"
    using length_replace_py [of newline_token "msg_text m" "[]"]
    by (simp add: newline_token_def)
  have b: "int (length (replace_py t [dquote, dquote] [dquote]))
      = int (length t) - int (count_py t [dquote, dquote])" for t
    using length_replace_py [of "[dquote, dquote]" t "[dquote]"] by simp
  show "int (Message_len m) = int (length (msg_text m))
       - 11 * int (count_py (msg_text m) newline_token)
       - int (count_py (replace_py (msg_text m) newline_token []) [dquote, dquote])"
    by (simp add: Message_len_def Let_def a b)
  show "Message_len (m\<lparr>msg_text := ''He said \"\"hi\"\"<|NEWLINE|>bye''\<rparr>) = 15"
    by (simp add: Message_len_def Let_def replace_py_def newline_token_def dquote_def)
qed

text \<open>
  C3 as stated fails at its own example: the stored text
  \<^verbatim>\<open>He said ""hi""<|NEWLINE|>bye\<close> does not have the length of \<^verbatim>\<open>He said "hi"\<close>, a
  newline character and \<^verbatim>\<open>bye\<close>, which is 16.
\<close>

theorem Message_len_counterexample:
  "Message_len (mk_msg 0 1 ''He said \"\"hi\"\"<|NEWLINE|>bye'')
     \<noteq> length (''He said \"hi\"'' @ [CHR 0x0A] @ ''bye'')"
  by (simp add: Message_len_def Let_def replace_py_def newline_token_def dquote_def mk_msg_def)

subsection \<open>Date range\<close>

text \<open>
  C4. With \<open>start\<close> normalised to the datetime \<open>s\<close>: when \<open>end\<close> is given and normalised
  to \<open>e\<close>, \<^verbatim>\<open>sent_between\<close> holds exactly when \<open>s \<le> date_time \<le> e\<close>; when \<open>end\<close> is
  omitted and \<open>s\<close> plus one day is a representable datetime, it holds exactly when
  \<open>s \<le> date_time \<le> s + one_day\<close>, so a message sent exactly at \<open>s\<close> and one sent exactly
  at \<open>s + one_day\<close> are both included.
\<close>

theorem sent_between_inclusive:
  assumes "date_parse mk start = Inr s"
  shows "(date_parse mk en = Inr e \<longrightarrow>
           sent_between mk m start (Some en) = Inr (s \<le> date_time m \<and> date_time m \<le> e))
     \<and> (0 \<le> s \<and> s + one_day \<le> datetime_max \<longrightarrow>
           sent_between mk m start None = Inr (s \<le> date_time m \<and> date_time m \<le> s + one_day)
         \<and> sent_between mk (m\<lparr>date_time := s\<rparr>) start None = Inr True
         \<and> sent_between mk (m\<lparr>date_time := s + one_day\<rparr>) start None = Inr True)"
  using assms by (simp add: sent_between_def datetime_add_def one_day_def)

text \<open>
  The range at \<open>start = 0\<close>: a message at the explicit end is included, and with no
  end given the messages at \<open>0\<close> and at \<open>one_day\<close> are included, the one a microsecond
  later is not.
\<close>

theorem sent_between_inclusive_witness:
  "date_parse (\<lambda>xs. Inl ValueError) (Native 0) = Inr 0
   \<and> date_parse (\<lambda>xs. Inl ValueError) (Native 60000000) = Inr 60000000
   \<and> sent_between (\<lambda>xs. Inl ValueError) (mk_msg 60000000 1 ''x'') (Native 0) (Some (Native 60000000))
       = Inr True
   \<and> 0 \<le> (0::int) \<and> 0 + one_day \<le> datetime_max
   \<and> sent_between (\<lambda>xs. Inl ValueError) (mk_msg one_day 1 ''x'') (Native 0) None = Inr True
   \<and> sent_between (\<lambda>xs. Inl ValueError) (mk_msg 0 1 ''x'') (Native 0) None = Inr True
   \<and> sent_between (\<lambda>xs. Inl ValueError) (mk_msg (one_day + 1) 1 ''x'') (Native 0) None = Inr False"
proof -
  have p: "date_parse (\<lambda>xs. Inl ValueError) (Native 0) = Inr 0"
    by (simp add: date_parse_def)
  show ?thesis
    using sent_between_inclusive [OF p, of "Native 60000000" 60000000 "mk_msg 60000000 1 ''x''"]
      sent_between_inclusive [OF p, of "Native 60000000" 60000000 "mk_msg one_day 1 ''x''"]
      sent_between_inclusive [OF p, of "Native 60000000" 60000000 "mk_msg 0 1 ''x''"]
      sent_between_inclusive [OF p, of "Native 60000000" 60000000 "mk_msg (one_day + 1) 1 ''x''"]
    by (simp add: date_parse_def mk_msg_def one_day_def datetime_max_def)
qed

subsection \<open>Search\<close>

lemma str_in_iff: "str_in needle hay \<longleftrightarrow> (\<exists>p q. hay = p @ needle @ q)"
proof (induction hay)
  case Nil
  show ?case by auto
next
  case (Cons c cs)
  show ?case
  proof
    assume "str_in needle (c # cs)"
    then consider "startswith (c # cs) needle" | "str_in needle cs" by auto
    then show "\<exists>p q. c # cs = p @ needle @ q"
    proof cases
      case 1
      then obtain q where "c # cs = needle @ q" by (auto simp: startswith_iff)
      then have "c # cs = [] @ needle @ q" by simp
      then show ?thesis by blast
    next
      case 2
      with Cons obtain p q where "cs = p @ needle @ q" by auto
      then have "c # cs = (c # p) @ needle @ q" by simp
      then show ?thesis by blast
    qed
  next
    assume "\<exists>p q. c # cs = p @ needle @ q"
    then obtain p q where pq: "c # cs = p @ needle @ q" by auto
    show "str_in needle (c # cs)"
    proof (cases p)
      case Nil
      with pq have "startswith (c # cs) needle" by (auto simp: startswith_iff)
      then show ?thesis by simp
    next
      case (Cons a p')
      with pq have "cs = p' @ needle @ q" by simp
      with Cons.IH have "str_in needle cs" by blast
      then show ?thesis by simp
    qed
  qed
qed

lemma contains_example:
  "\<not> str_in ''Hello'' ''well, hello there'' \<and> str_in ''hello'' ''well, hello there''"
  by code_simp

text \<open>
  C8. Without \<open>ignore_case\<close> a message contains \<open>s\<close> exactly when \<open>s\<close> occurs in its text;
  with \<open>ignore_case\<close>, exactly when the lowercased \<open>s\<close> occurs in the lowercased text,
  whatever \<^verbatim>\<open>str.lower()\<close> computes. Searching \<^verbatim>\<open>Hello\<close> in a text that holds only
  \<^verbatim>\<open>hello\<close> fails in the first mode; it succeeds in the second, given that
  \<^verbatim>\<open>str.lower()\<close> turns \<^verbatim>\<open>Hello\<close> into \<^verbatim>\<open>hello\<close> and leaves the text as it is.
\<close>

theorem contains_substring:
  "(contains lw m s False \<longleftrightarrow> (\<exists>p q. msg_text m = p @ s @ q))
   \<and> (contains lw m s True \<longleftrightarrow> (\<exists>p q. lw (msg_text m) = p @ lw s @ q))
   \<and> \<not> contains lw (m\<lparr>msg_text := ''well, hello there''\<rparr>) ''Hello'' False
   \<and> (lw ''Hello'' = ''hello'' \<and> lw ''well, hello there'' = ''well, hello there'' \<longrightarrow>
        contains lw (m\<lparr>msg_text := ''well, hello there''\<rparr>) ''Hello'' True)"
  using contains_example by (simp add: contains_def str_in_iff [symmetric])

text \<open>
  The search at a message with the ASCII text \<^verbatim>\<open>well, hello there\<close>, lowercased by
  \<open>ascii_lower\<close>.
\<close>

theorem contains_substring_witness:
  "ascii_lower ''Hello'' = ''hello''
   \<and> ascii_lower ''well, hello there'' = ''well, hello there''
   \<and> \<not> contains ascii_lower (mk_msg 0 1 ''well, hello there'') ''Hello'' False
   \<and> contains ascii_lower (mk_msg 0 1 ''well, hello there'') ''Hello'' True
   \<and> \<not> contains ascii_lower (mk_msg 0 1 ''well, hello there'') ''HELP'' True"
proof -
  have l: "ascii_lower ''Hello'' = ''hello''
      \<and> ascii_lower ''well, hello there'' = ''well, hello there''"
    by code_simp
  have h: "ascii_lower ''HELP'' = ''help''"
    by code_simp
  have t: "(mk_msg 0 1 ''well, hello there'')\<lparr>msg_text := ''well, hello there''\<rparr>
      = mk_msg 0 1 ''well, hello there''"
    by (simp add: mk_msg_def)
  have n: "\<not> str_in ''help'' ''well, hello there''"
    by code_simp
  have c: "\<not> contains ascii_lower (mk_msg 0 1 ''well, hello there'') ''HELP'' True"
    using l h n by (simp add: contains_def mk_msg_def)
  note th = contains_substring [of ascii_lower "mk_msg 0 1 ''well, hello there''" "''Hello''",
      unfolded t]
  have a: "\<not> contains ascii_lower (mk_msg 0 1 ''well, hello there'') ''Hello'' False"
    by (rule th [THEN conjunct2, THEN conjunct2, THEN conjunct1])
  have b: "contains ascii_lower (mk_msg 0 1 ''well, hello there'') ''Hello'' True"
    by (rule th [THEN conjunct2, THEN conjunct2, THEN conjunct2, THEN mp, OF l])
  from l a b c show ?thesis by blast
qed

section \<open>Properties of sorting\<close>

lemma mset_insert_sorted: "mset (insert_sorted lt x ys) = add_mset x (mset ys)"
  by (induction ys) auto

lemma mset_foldl_insert:
  "mset (foldl (\<lambda>acc x. insert_sorted lt x acc) acc xs) = mset acc + mset xs"
  by (induction xs arbitrary: acc) (auto simp: mset_insert_sorted)

lemma mset_py_sorted: "mset (py_sorted lt xs) = mset xs"
  by (simp add: py_sorted_def mset_foldl_insert)

lemma set_insert_sorted: "set (insert_sorted lt x ys) = insert x (set ys)"
  using mset_insert_sorted [of lt x ys] by (metis set_mset_add_mset_insert set_mset_mset)

lemma descending_insert_sorted:
  assumes asym: "\<And>a b. a \<in> S \<Longrightarrow> b \<in> S \<Longrightarrow> lt a b \<Longrightarrow> \<not> lt b a"
    and ntrans: "\<And>a b c. a \<in> S \<Longrightarrow> b \<in> S \<Longrightarrow> c \<in> S \<Longrightarrow> \<not> lt a b \<Longrightarrow> \<not> lt b c \<Longrightarrow> \<not> lt a c"
    and "x \<in> S" and "set ys \<subseteq> S"
    and "sorted_wrt (\<lambda>a b. \<not> lt a b) ys"
  shows "sorted_wrt (\<lambda>a b. \<not> lt a b) (insert_sorted lt x ys)"
  using assms(3-5)
proof (induction ys)
  case Nil
  show ?case by simp
next
  case (Cons y ys)
  show ?case
  proof (cases "lt x y")
    case True
    have "\<not> lt y x" using asym [of x y] True Cons.prems by auto
    moreover have "sorted_wrt (\<lambda>a b. \<not> lt a b) (insert_sorted lt x ys)"
      using Cons by auto
    ultimately show ?thesis using True Cons.prems by (auto simp: set_insert_sorted)
  next
    case False
    have "\<not> lt x z" if "z \<in> set ys" for z
      using ntrans [of x y z] False Cons.prems that by auto
    with False Cons.prems show ?thesis by auto
  qed
qed

lemma descending_foldl_insert:
  assumes asym: "\<And>a b. a \<in> S \<Longrightarrow> b \<in> S \<Longrightarrow> lt a b \<Longrightarrow> \<not> lt b a"
    and ntrans: "\<And>a b c. a \<in> S \<Longrightarrow> b \<in> S \<Longrightarrow> c \<in> S \<Longrightarrow> \<not> lt a b \<Longrightarrow> \<not> lt b c \<Longrightarrow> \<not> lt a c"
    and "set xs \<subseteq> S" and "set acc \<subseteq> S"
    and "sorted_wrt (\<lambda>a b. \<not> lt a b) acc"
  shows "sorted_wrt (\<lambda>a b. \<not> lt a b) (foldl (\<lambda>acc x. insert_sorted lt x acc) acc xs)"
  using assms(3-5)
proof (induction xs arbitrary: acc)
  case Nil
  then show ?case by simp
next
  case (Cons x xs)
  have x: "x \<in> S" and xs: "set xs \<subseteq> S"
    using Cons.prems(1) by simp_all
  have "sorted_wrt (\<lambda>a b. \<not> lt a b) (insert_sorted lt x acc)"
    by (rule descending_insert_sorted [where S = S, OF asym ntrans x Cons.prems(2) Cons.prems(3)])
  moreover have "set (insert_sorted lt x acc) \<subseteq> S"
    using x Cons.prems(2) by (simp add: set_insert_sorted)
  ultimately have "sorted_wrt (\<lambda>a b. \<not> lt a b)
      (foldl (\<lambda>acc x. insert_sorted lt x acc) (insert_sorted lt x acc) xs)"
    using Cons.IH [OF xs] by blast
  then show ?case by simp
qed

lemma sorted_py_sorted:
  assumes asym: "\<And>a b. a \<in> set xs \<Longrightarrow> b \<in> set xs \<Longrightarrow> lt a b \<Longrightarrow> \<not> lt b a"
    and ntrans: "\<And>a b c. a \<in> set xs \<Longrightarrow> b \<in> set xs \<Longrightarrow> c \<in> set xs \<Longrightarrow>
        \<not> lt a b \<Longrightarrow> \<not> lt b c \<Longrightarrow> \<not> lt a c"
  shows "sorted_wrt (\<lambda>a b. \<not> lt b a) (py_sorted lt xs)"
proof -
  have "sorted_wrt (\<lambda>a b. \<not> lt a b) (foldl (\<lambda>acc x. insert_sorted lt x acc) [] xs)"
    by (rule descending_foldl_insert [where S = "set xs", OF asym ntrans]) simp_all
  then show ?thesis by (simp add: py_sorted_def sorted_wrt_rev)
qed

lemma filter_insert_sorted:
  "\<forall>y \<in> set ys. P y \<longrightarrow> P x \<longrightarrow> \<not> lt x y \<Longrightarrow>
   filter P (insert_sorted lt x ys) = (if P x then x # filter P ys else filter P ys)"
  by (induction ys) auto

lemma filter_foldl_insert:
  "\<forall>x y. P y \<longrightarrow> P x \<longrightarrow> \<not> lt x y \<Longrightarrow>
   filter P (foldl (\<lambda>acc x. insert_sorted lt x acc) acc xs) = rev (filter P xs) @ filter P acc"
proof (induction xs arbitrary: acc)
  case Nil
  show ?case by simp
next
  case (Cons x xs)
  have "filter P (insert_sorted lt x acc) = (if P x then x # filter P acc else filter P acc)"
    using filter_insert_sorted [of acc P x lt] Cons.prems by blast
  with Cons show ?case by simp
qed

lemma key_reverse_unfold:
  "py_sorted_key_reverse key xs
     = foldl (\<lambda>acc x. insert_sorted (\<lambda>a b. key a < key b) x acc) [] (rev xs)"
  by (simp add: py_sorted_key_reverse_def py_sorted_def)

lemma mset_key_reverse: "mset (py_sorted_key_reverse key xs) = mset xs"
  by (simp add: key_reverse_unfold mset_foldl_insert)

lemma descending_key_reverse:
  "sorted_wrt (\<lambda>a b. key b \<le> key a) (py_sorted_key_reverse key xs)"
proof -
  have "sorted_wrt (\<lambda>a b. \<not> key a < key b)
      (foldl (\<lambda>acc x. insert_sorted (\<lambda>a b. key a < key b) x acc) [] (rev xs))"
    by (rule descending_foldl_insert [where S = UNIV]) simp_all
  then show ?thesis by (simp add: key_reverse_unfold not_less)
qed

lemma stable_key_reverse:
  "filter (\<lambda>t. key t = k) (py_sorted_key_reverse key xs) = filter (\<lambda>t. key t = k) xs"
  using filter_foldl_insert [of "\<lambda>t. key t = k" "\<lambda>a b. key a < key b" "[]" "rev xs"]
  by (simp add: key_reverse_unfold rev_filter)

lemma threads_Chat_init: "threads (Chat_init st me ts) = py_sorted_key_reverse Thread_len ts"
  by (simp add: Chat_init_def Let_def)

lemma Thread_len_mk_thread: "Thread_len (mk_thread p ms) = length ms"
  by (simp add: Thread_len_def mk_thread_def)

section \<open>Properties of threads\<close>

lemma Message_lt_asym: "Message_lt a b \<Longrightarrow> \<not> Message_lt b a"
  by (auto simp: Message_lt_def split: if_splits)

lemma Message_lt_ntrans:
  assumes "date_time a = date_time c \<longrightarrow> \<bar>num a - num c\<bar> \<le> 9000"
    and "date_time a = date_time b \<longrightarrow> \<bar>num a - num b\<bar> \<le> 9000"
    and "date_time b = date_time c \<longrightarrow> \<bar>num b - num c\<bar> \<le> 9000"
    and "\<not> Message_lt a b" and "\<not> Message_lt b c"
  shows "\<not> Message_lt a c"
  using assms by (auto simp: Message_lt_def split: if_splits)

lemma sorted_py_sorted_messages:
  assumes "comparable st rs"
  shows "sorted_wrt (\<lambda>a b. \<not> lt_in st b a) (py_sorted (lt_in st) rs)"
proof (rule sorted_py_sorted)
  fix a b assume "lt_in st a b"
  then show "\<not> lt_in st b a" by (simp add: lt_in_def Message_lt_asym)
next
  fix a b c
  assume "a \<in> set rs" "b \<in> set rs" "c \<in> set rs" "\<not> lt_in st a b" "\<not> lt_in st b c"
  then show "\<not> lt_in st a c"
    using assms Message_lt_ntrans [of "st a" "st c" "st b"]
    unfolding lt_in_def comparable_def by blast
qed

text \<open>
  C6 (as amended). After \<^verbatim>\<open>_add_messages\<close> the message list is a permutation of the
  previous list followed by the new messages, nothing being dropped, so a message added
  twice appears twice; after construction it is a permutation of the given messages. In
  both cases the list is sorted under the Message order (no message is less than one
  stored before it) whenever any two of its messages with equal timestamps have sequence
  numbers at most 9000 apart.
\<close>

theorem add_messages_sorted:
  "mset (messages (add_messages st t ms)) = mset (messages t) + mset ms
   \<and> mset (messages (Thread_init st ps ms)) = mset ms
   \<and> (comparable st (messages t @ ms) \<longrightarrow>
        sorted_wrt (\<lambda>a b. \<not> Message_lt (st b) (st a)) (messages (add_messages st t ms)))
   \<and> (comparable st ms \<longrightarrow>
        sorted_wrt (\<lambda>a b. \<not> Message_lt (st b) (st a)) (messages (Thread_init st ps ms)))"
  using sorted_py_sorted_messages [of st "messages t @ ms"] sorted_py_sorted_messages [of st ms]
  by (simp add: add_messages_def Thread_init_def mset_py_sorted lt_in_def)

text \<open>
  The amended claim at a thread built from messages numbered 10 and 9, to which the
  messages numbered 8 and 9 are added: the second of them was in the thread already and
  appears twice.
\<close>

theorem add_messages_sorted_witness:
  "comparable (\<lambda>r. mk_msg 0 (10 - int r) ''x'')
       (messages (Thread_init (\<lambda>r. mk_msg 0 (10 - int r) ''x'') [''A''] [0, 1]) @ [2, 1])
   \<and> messages (add_messages (\<lambda>r. mk_msg 0 (10 - int r) ''x'')
        (Thread_init (\<lambda>r. mk_msg 0 (10 - int r) ''x'') [''A''] [0, 1]) [2, 1]) = [2, 1, 1, 0]
   \<and> sorted_wrt (\<lambda>a b. \<not> Message_lt (mk_msg 0 (10 - int b) ''x'') (mk_msg 0 (10 - int a) ''x''))
        [2, 1, 1, 0]"
proof -
  have t: "messages (Thread_init (\<lambda>r. mk_msg 0 (10 - int r) ''x'') [''A''] [0, 1]) = [1, 0]"
    by (simp add: Thread_init_def py_sorted_def lt_in_def Message_lt_def mk_msg_def)
  have c: "comparable (\<lambda>r. mk_msg 0 (10 - int r) ''x'') ([1, 0] @ [2, 1])"
    by (simp add: comparable_def mk_msg_def)
  have m: "messages (add_messages (\<lambda>r. mk_msg 0 (10 - int r) ''x'')
        (Thread_init (\<lambda>r. mk_msg 0 (10 - int r) ''x'') [''A''] [0, 1]) [2, 1]) = [2, 1, 1, 0]"
    by (simp add: add_messages_def Thread_init_def py_sorted_def lt_in_def Message_lt_def mk_msg_def)
  show ?thesis
    using add_messages_sorted [of "\<lambda>r. mk_msg 0 (10 - int r) ''x''"
        "Thread_init (\<lambda>r. mk_msg 0 (10 - int r) ''x'') [''A''] [0, 1]" "[2, 1]" "[''A'']"] c
    unfolding t m by simp
qed

text \<open>
  C6 as stated fails for messages of one minute numbered 10000, 0 and 5000: a thread
  built from the first two, to which the third is added, stores them in this order, and
  the last message is less than the first.
\<close>

theorem add_messages_sorted_counterexample:
  "messages (add_messages gap_store (Thread_init gap_store [''A''] [0, 1]) [2]) = [0, 1, 2]
   \<and> Message_lt (gap_store 2) (gap_store 0)
   \<and> \<not> sorted_wrt (\<lambda>a b. \<not> Message_lt (gap_store b) (gap_store a))
        (messages (add_messages gap_store (Thread_init gap_store [''A''] [0, 1]) [2]))"
proof -
  have a: "messages (add_messages gap_store (Thread_init gap_store [''A''] [0, 1]) [2]) = [0, 1, 2]"
    by (simp add: add_messages_def Thread_init_def py_sorted_def lt_in_def Message_lt_def
        gap_store_def mk_msg_def)
  have b: "Message_lt (gap_store 2) (gap_store 0)"
    by (simp add: Message_lt_def gap_store_def mk_msg_def)
  show ?thesis unfolding a using b by simp
qed

lemma renumber_loop_other: "r \<notin> set rs \<Longrightarrow> renumber_loop st i rs r = st r"
  by (induction rs arbitrary: st i) simp_all

lemma renumber_loop_fields:
  "(renumber_loop st i rs r)\<lparr>num := n\<rparr> = (st r)\<lparr>num := n\<rparr>"
proof (induction rs arbitrary: st i)
  case Nil
  show ?case by simp
next
  case (Cons a rs)
  show ?case by (simp add: Cons.IH)
qed

lemma renumber_loop_num:
  "distinct rs \<Longrightarrow> k < length rs \<Longrightarrow> num (renumber_loop st i rs (rs ! k)) = i + int k"
proof (induction rs arbitrary: st i k)
  case Nil
  then show ?case by simp
next
  case (Cons r rs)
  show ?case
  proof (cases k)
    case 0
    with Cons.prems show ?thesis by (simp add: renumber_loop_other)
  next
    case (Suc j)
    with Cons.prems show ?thesis by (simp add: Cons.IH)
  qed
qed

text \<open>
  C7 (as amended). When the stored list of a thread holds \<open>n\<close> distinct message
  objects, after \<^verbatim>\<open>_renumber_messages\<close> the \<open>i\<close>-th message of the list, counted from 1,
  has sequence number \<open>i\<close>: the numbers are \<open>1, \<dots>, n\<close> in list order. The list itself is
  unchanged, and so is every field of every message other than its number.
\<close>

theorem renumber_messages_distinct:
  assumes "distinct (messages t)"
  shows "(\<forall>k < length (messages t).
            num (fst (renumber_messages st t) (messages t ! k)) = int k + 1)
     \<and> map (\<lambda>r. num (fst (renumber_messages st t) r)) (messages t)
         = map int [1 ..< Suc (length (messages t))]
     \<and> snd (renumber_messages st t) = t
     \<and> (\<forall>r n. (fst (renumber_messages st t) r)\<lparr>num := n\<rparr> = (st r)\<lparr>num := n\<rparr>)"
proof -
  have a: "\<forall>k < length (messages t).
            num (fst (renumber_messages st t) (messages t ! k)) = int k + 1"
    using renumber_loop_num [OF assms, of _ st 1] by (simp add: renumber_messages_def)
  have "map (\<lambda>r. num (fst (renumber_messages st t) r)) (messages t)
         = map int [1 ..< Suc (length (messages t))]"
  proof (rule nth_equalityI)
    show "length (map (\<lambda>r. num (fst (renumber_messages st t) r)) (messages t))
        = length (map int [1 ..< Suc (length (messages t))])" by (simp del: upt_Suc)
  next
    fix k assume "k < length (map (\<lambda>r. num (fst (renumber_messages st t) r)) (messages t))"
    then have k: "k < length (messages t)" by simp
    then have "map int [1 ..< Suc (length (messages t))] ! k = int k + 1"
      by (simp del: upt_Suc)
    with a k show "map (\<lambda>r. num (fst (renumber_messages st t) r)) (messages t) ! k
        = map int [1 ..< Suc (length (messages t))] ! k" by simp
  qed
  with a show ?thesis by (simp add: renumber_messages_def renumber_loop_fields)
qed

text \<open>The amended claim at a thread holding the three objects 4, 2 and 9.\<close>

theorem renumber_messages_distinct_witness:
  "distinct (messages (mk_thread ''A'' [4, 2, 9]))
   \<and> map (\<lambda>r. num (fst (renumber_messages (\<lambda>r. mk_msg 0 7 ''x'') (mk_thread ''A'' [4, 2, 9])) r))
       [4, 2, 9] = [1, 2, 3]"
proof -
  have d: "distinct (messages (mk_thread ''A'' [4, 2, 9]))" by (simp add: mk_thread_def)
  show ?thesis
    using d renumber_messages_distinct [OF d, of "\<lambda>r. mk_msg 0 7 ''x''"]
    by (simp add: mk_thread_def upt_rec)
qed


text \<open>
  C7 as stated fails when the list holds one object twice: the second assignment
  overwrites the first, and the first message of the list ends with number 2.
\<close>

theorem renumber_messages_counterexample:
  "num (fst (renumber_messages (\<lambda>r. mk_msg 0 7 ''x'') (mk_thread ''A'' [0, 0])) ([0, 0] ! 0)) = 2"
  by (simp add: renumber_messages_def mk_thread_def)

section \<open>Properties of the chat\<close>

text \<open>
  C5. The threads of a constructed chat are the given threads (a permutation of them),
  in descending order of message count, and the threads of any one message count keep
  their input order. Threads with 5, 3, 3 and 8 messages come out as 8, 5, 3, 3, the two
  threads of size 3 in their input order.
\<close>

theorem Chat_init_threads_sorted:
  "mset (threads (Chat_init st me ts)) = mset ts
   \<and> sorted_wrt (\<lambda>a b. Thread_len b \<le> Thread_len a) (threads (Chat_init st me ts))
   \<and> filter (\<lambda>t. Thread_len t = k) (threads (Chat_init st me ts))
       = filter (\<lambda>t. Thread_len t = k) ts
   \<and> threads (Chat_init st me
        [mk_thread ''A'' [0,1,2,3,4], mk_thread ''B'' [5,6,7], mk_thread ''C'' [8,9,10],
         mk_thread ''D'' [11,12,13,14,15,16,17,18]])
     = [mk_thread ''D'' [11,12,13,14,15,16,17,18], mk_thread ''A'' [0,1,2,3,4],
        mk_thread ''B'' [5,6,7], mk_thread ''C'' [8,9,10]]"
proof -
  have "threads (Chat_init st me
        [mk_thread ''A'' [0,1,2,3,4], mk_thread ''B'' [5,6,7], mk_thread ''C'' [8,9,10],
         mk_thread ''D'' [11,12,13,14,15,16,17,18]])
     = [mk_thread ''D'' [11,12,13,14,15,16,17,18], mk_thread ''A'' [0,1,2,3,4],
        mk_thread ''B'' [5,6,7], mk_thread ''C'' [8,9,10]]"
    by (simp add: threads_Chat_init key_reverse_unfold Thread_len_mk_thread)
  then show ?thesis
    by (simp only: threads_Chat_init mset_key_reverse descending_key_reverse
        stable_key_reverse simp_thms)
qed

text \<open>
  The same at three threads with 1, 2 and 1 messages: the thread of size 2 comes first
  and the two threads of size 1 follow in their input order.
\<close>

theorem Chat_init_threads_sorted_witness:
  "threads (Chat_init (\<lambda>r. mk_msg 0 (int r) ''x'') ''Me''
       [mk_thread ''A'' [0], mk_thread ''B'' [1, 2], mk_thread ''C'' [3]])
     = [mk_thread ''B'' [1, 2], mk_thread ''A'' [0], mk_thread ''C'' [3]]
   \<and> sorted_wrt (\<lambda>a b. Thread_len b \<le> Thread_len a)
       [mk_thread ''B'' [1, 2], mk_thread ''A'' [0], mk_thread ''C'' [3]]
   \<and> filter (\<lambda>t. Thread_len t = 1)
       [mk_thread ''B'' [1, 2], mk_thread ''A'' [0], mk_thread ''C'' [3]]
     = [mk_thread ''A'' [0], mk_thread ''C'' [3]]"
proof -
  have e: "threads (Chat_init (\<lambda>r. mk_msg 0 (int r) ''x'') ''Me''
       [mk_thread ''A'' [0], mk_thread ''B'' [1, 2], mk_thread ''C'' [3]])
     = [mk_thread ''B'' [1, 2], mk_thread ''A'' [0], mk_thread ''C'' [3]]"
    by (simp add: threads_Chat_init key_reverse_unfold Thread_len_mk_thread)
  show ?thesis
    using Chat_init_threads_sorted [of "\<lambda>r. mk_msg 0 (int r) ''x''" "''Me''"
        "[mk_thread ''A'' [0], mk_thread ''B'' [1, 2], mk_thread ''C'' [3]]" 1]
    unfolding e by (simp add: Thread_len_mk_thread)
qed

lemma dict_foldl:
  "foldl (\<lambda>d t. d(f t \<mapsto> t)) d0 ths k
     = (case filter (\<lambda>t. f t = k) ths of [] \<Rightarrow> d0 k | y # ys \<Rightarrow> Some (last (y # ys)))"
proof (induction ths arbitrary: d0)
  case Nil
  show ?case by simp
next
  case (Cons x xs)
  have "foldl (\<lambda>d t. d(f t \<mapsto> t)) d0 (x # xs) k
      = foldl (\<lambda>d t. d(f t \<mapsto> t)) (d0(f x \<mapsto> x)) xs k"
    by (simp del: fun_upd_apply)
  also have "\<dots> = (case filter (\<lambda>t. f t = k) xs of [] \<Rightarrow> (d0(f x \<mapsto> x)) k
      | y # ys \<Rightarrow> Some (last (y # ys)))"
    by (rule Cons.IH)
  also have "\<dots> = (case filter (\<lambda>t. f t = k) (x # xs) of [] \<Rightarrow> d0 k
      | y # ys \<Rightarrow> Some (last (y # ys)))"
    by (simp split: list.splits)
  finally show ?case .
qed

lemma thread_dict_Chat_init:
  "thread_dict (Chat_init st me ts) k
     = (case filter (\<lambda>t. join '', '' (people t) = k) (threads (Chat_init st me ts)) of
          [] \<Rightarrow> None | y # ys \<Rightarrow> Some (last (y # ys)))"
  by (simp add: Chat_init_def Let_def dict_foldl del: fun_upd_apply)

lemma set_threads_Chat_init: "set (threads (Chat_init st me ts)) = set ts"
  using mset_key_reverse [of Thread_len ts] threads_Chat_init [of st me ts]
  by (metis set_mset_mset)

lemma length_threads_Chat_init: "length (threads (Chat_init st me ts)) = length ts"
  using mset_key_reverse [of Thread_len ts] threads_Chat_init [of st me ts]
  by (metis size_mset)

text \<open>
  C9. In a constructed chat, a string key that is the comma-joined participant list of
  some thread returns a thread with that label (the last such thread of the sorted
  sequence); any other string key fails with \<^verbatim>\<open>KeyError\<close>. An integer key \<open>i\<close> with
  \<open>0 \<le> i < n\<close> returns the thread at position \<open>i\<close> of the sorted sequence; a negative
  \<open>i \<ge> -n\<close> counts from the end, and any other integer fails with \<^verbatim>\<open>IndexError\<close>.
\<close>

theorem Chat_getitem_lookup:
  "(k \<in> (\<lambda>t. join '', '' (people t)) ` set ts \<longrightarrow>
      (\<exists>t \<in> set ts. join '', '' (people t) = k
         \<and> t = last (filter (\<lambda>t. join '', '' (people t) = k) (threads (Chat_init st me ts)))
         \<and> Chat_getitem (Chat_init st me ts) (StrKey k) = Inr (Some t)))
   \<and> (k \<notin> (\<lambda>t. join '', '' (people t)) ` set ts \<longrightarrow>
      Chat_getitem (Chat_init st me ts) (StrKey k) = Inl KeyError)
   \<and> (0 \<le> i \<and> i < int (length ts) \<longrightarrow>
      Chat_getitem (Chat_init st me ts) (IntKey i)
        = Inr (Some (threads (Chat_init st me ts) ! nat i)))
   \<and> (- int (length ts) \<le> i \<and> i < 0 \<longrightarrow>
      Chat_getitem (Chat_init st me ts) (IntKey i)
        = Inr (Some (threads (Chat_init st me ts) ! nat (int (length ts) + i))))
   \<and> (i < - int (length ts) \<or> int (length ts) \<le> i \<longrightarrow>
      Chat_getitem (Chat_init st me ts) (IntKey i) = Inl IndexError)"
proof -
  let ?c = "Chat_init st me ts"
  let ?P = "\<lambda>t. join '', '' (people t) = k"
  have str_hit: "\<exists>t \<in> set ts. join '', '' (people t) = k
         \<and> t = last (filter ?P (threads ?c))
         \<and> Chat_getitem ?c (StrKey k) = Inr (Some t)"
    if "k \<in> (\<lambda>t. join '', '' (people t)) ` set ts"
  proof -
    from that have "filter ?P (threads ?c) \<noteq> []"
      by (auto simp: filter_empty_conv set_threads_Chat_init)
    then obtain y ys where f: "filter ?P (threads ?c) = y # ys"
      by (cases "filter ?P (threads ?c)") auto
    have "last (y # ys) \<in> set (filter ?P (threads ?c))"
      unfolding f by (rule last_in_set) simp
    then have "last (y # ys) \<in> set ts" and "?P (last (y # ys))"
      by (simp_all add: set_threads_Chat_init)
    moreover have "Chat_getitem ?c (StrKey k) = Inr (Some (last (y # ys)))"
      by (simp add: Chat_getitem_def thread_dict_Chat_init f)
    ultimately show ?thesis unfolding f by blast
  qed
  have str_miss: "Chat_getitem ?c (StrKey k) = Inl KeyError"
    if "k \<notin> (\<lambda>t. join '', '' (people t)) ` set ts"
  proof -
    from that have "filter ?P (threads ?c) = []"
      by (auto simp: filter_empty_conv set_threads_Chat_init)
    then show ?thesis by (simp add: Chat_getitem_def thread_dict_Chat_init)
  qed
  have ints: "(0 \<le> i \<and> i < int (length ts) \<longrightarrow>
      Chat_getitem ?c (IntKey i) = Inr (Some (threads ?c ! nat i)))
   \<and> (- int (length ts) \<le> i \<and> i < 0 \<longrightarrow>
      Chat_getitem ?c (IntKey i) = Inr (Some (threads ?c ! nat (int (length ts) + i))))
   \<and> (i < - int (length ts) \<or> int (length ts) \<le> i \<longrightarrow>
      Chat_getitem ?c (IntKey i) = Inl IndexError)"
    by (auto simp: Chat_getitem_def list_getitem_def Let_def length_threads_Chat_init)
  from str_hit str_miss ints show ?thesis by blast
qed

text \<open>
  The lookups at a chat of two threads labelled \<open>A\<close> (one message) and \<open>B\<close> (two
  messages): the keys \<open>B\<close> and 0 return the larger thread, the key -1 the smaller one, the
  keys \<open>Z\<close> and 2 fail.
\<close>

theorem Chat_getitem_lookup_witness:
  "''B'' \<in> (\<lambda>t. join '', '' (people t)) ` set [mk_thread ''A'' [0], mk_thread ''B'' [1, 2]]
   \<and> Chat_getitem (Chat_init (\<lambda>r. mk_msg 0 (int r) ''x'') ''Me''
         [mk_thread ''A'' [0], mk_thread ''B'' [1, 2]]) (StrKey ''B'')
       = Inr (Some (mk_thread ''B'' [1, 2]))
   \<and> ''Z'' \<notin> (\<lambda>t. join '', '' (people t)) ` set [mk_thread ''A'' [0], mk_thread ''B'' [1, 2]]
   \<and> Chat_getitem (Chat_init (\<lambda>r. mk_msg 0 (int r) ''x'') ''Me''
         [mk_thread ''A'' [0], mk_thread ''B'' [1, 2]]) (StrKey ''Z'') = Inl KeyError
   \<and> Chat_getitem (Chat_init (\<lambda>r. mk_msg 0 (int r) ''x'') ''Me''
         [mk_thread ''A'' [0], mk_thread ''B'' [1, 2]]) (IntKey 0)
       = Inr (Some (mk_thread ''B'' [1, 2]))
   \<and> Chat_getitem (Chat_init (\<lambda>r. mk_msg 0 (int r) ''x'') ''Me''
         [mk_thread ''A'' [0], mk_thread ''B'' [1, 2]]) (IntKey (- 1))
       = Inr (Some (mk_thread ''A'' [0]))
   \<and> Chat_getitem (Chat_init (\<lambda>r. mk_msg 0 (int r) ''x'') ''Me''
         [mk_thread ''A'' [0], mk_thread ''B'' [1, 2]]) (IntKey 2) = Inl IndexError"
proof -
  let ?ts = "[mk_thread ''A'' [0], mk_thread ''B'' [1, 2]]"
  let ?st = "\<lambda>r. mk_msg 0 (int r) ''x''"
  have th: "threads (Chat_init ?st ''Me'' ?ts) = [mk_thread ''B'' [1, 2], mk_thread ''A'' [0]]"
    by (simp add: threads_Chat_init key_reverse_unfold Thread_len_mk_thread)
  have lab: "join '', '' (people (mk_thread p ms)) = p" for p ms
    by (simp add: mk_thread_def)
  show ?thesis
    using Chat_getitem_lookup [where k = "''B''" and ts = ?ts and i = 0 and st = ?st and me = "''Me''"]
      Chat_getitem_lookup [where k = "''Z''" and ts = ?ts and i = "- 1" and st = ?st and me = "''Me''"]
      Chat_getitem_lookup [where k = "''Z''" and ts = ?ts and i = 2 and st = ?st and me = "''Me''"]
    unfolding th by (simp add: lab)
qed

text \<open>
  C10. A key that is neither an \<^verbatim>\<open>int\<close> nor a \<^verbatim>\<open>str\<close> makes \<^verbatim>\<open>__getitem__\<close> return
  \<^verbatim>\<open>None\<close> without raising.
\<close>

theorem Chat_getitem_other_key: "Chat_getitem c (OtherKey v) = Inr None"
  by (simp add: Chat_getitem_def)

end
